theory Spec2Isabelle
  imports Main "HOL-Library.Word"
begin

unbundle bit_operations_syntax

section \<open>Bytes, errors and the environment of the server\<close>

text \<open>
  The program is \<^verbatim>\<open>modbus_clock_server.py\<close>. Python integers are unbounded and are
  modelled as \<^typ>\<open>int\<close>; a \<^verbatim>\<open>bytes\<close> object is a list of 8-bit words. Every
  exception the protocol path can raise is a value of \<open>error\<close>.
\<close>

type_synonym byte = "8 word"

datatype error = ConnectionError | IndexError | StructError

record datetime =
  day :: int
  month :: int
  year :: int
  hour :: int
  minute :: int
  second :: int

text \<open>
  The world a connection handler runs in: the byte stream the peer sends before it closes
  the connection (\<open>rx\<close>), the sizes in which the transport hands these bytes to successive
  \<^verbatim>\<open>recv\<close> calls (\<open>chunking\<close>; a partial read is a size smaller than the one asked
  for), the frames passed to \<^verbatim>\<open>sendall\<close> (\<open>tx\<close>, oldest first), whether
  \<^verbatim>\<open>conn.close()\<close> has run, and the system clock as the sequence of its samples, with
  the number of samples taken so far. The peer closes the stream after a finite number of
  bytes; a connection reset ends the loop through the same \<^verbatim>\<open>except\<close> clause as a
  close and is not told apart from it, and \<^verbatim>\<open>sendall\<close> is taken to succeed.
\<close>

record world =
  rx :: "byte list"
  chunking :: "nat list"
  tx :: "byte list list"
  closed :: bool
  clock :: "nat \<Rightarrow> datetime"
  ticks :: nat

section \<open>Python primitives used by the server\<close>

text \<open>Slicing \<^verbatim>\<open>xs[i:j]\<close>: a negative index counts from the end, then both are clamped.\<close>

definition clamp_index :: "int \<Rightarrow> int \<Rightarrow> int" where
  "clamp_index n i =
     (let k = (if i < 0 then i + n else i)
      in if k < 0 then 0 else if k > n then n else k)"

definition py_slice :: "'a list \<Rightarrow> int \<Rightarrow> int \<Rightarrow> 'a list" where
  "py_slice xs i j =
     (let n = int (length xs); lo = clamp_index n i; hi = clamp_index n j
      in take (nat (hi - lo)) (drop (nat lo) xs))"

text \<open>
  \<^verbatim>\<open>struct.pack\<close> raises \<^verbatim>\<open>struct.error\<close> when a value does not fit its format:
  \<^verbatim>\<open>B\<close> is one unsigned byte, \<^verbatim>\<open>>H\<close> an unsigned 16-bit value, high byte first.
\<close>

definition pack_B :: "int \<Rightarrow> error + byte list" where
  "pack_B v = (if 0 \<le> v \<and> v \<le> 255 then Inr [word_of_int v] else Inl StructError)"

definition uint16_be :: "int \<Rightarrow> byte list" where
  "uint16_be v = [word_of_int (v div 256), word_of_int (v mod 256)]"

definition pack_H :: "int \<Rightarrow> error + byte list" where
  "pack_H v = (if 0 \<le> v \<and> v \<le> 65535 then Inr (uint16_be v) else Inl StructError)"

fun append_packed :: "error + byte list \<Rightarrow> error + byte list \<Rightarrow> error + byte list" where
  "append_packed (Inl e) _ = Inl e"
| "append_packed (Inr a) (Inl e) = Inl e"
| "append_packed (Inr a) (Inr b) = Inr (a @ b)"

definition pack_BB :: "int \<Rightarrow> int \<Rightarrow> error + byte list" where
  "pack_BB a b = append_packed (pack_B a) (pack_B b)"

definition pack_HHHB :: "int \<Rightarrow> int \<Rightarrow> int \<Rightarrow> int \<Rightarrow> error + byte list" where
  "pack_HHHB a b c d =
     append_packed (pack_H a) (append_packed (pack_H b) (append_packed (pack_H c) (pack_B d)))"

definition unpack_H :: "byte \<Rightarrow> byte \<Rightarrow> int" where
  "unpack_H hi lo = uint hi * 256 + uint lo"

text \<open>\<^verbatim>\<open>struct.unpack\<close> raises \<^verbatim>\<open>struct.error\<close> unless the buffer has the format's size.\<close>

fun unpack_HH :: "byte list \<Rightarrow> error + int \<times> int" where
  "unpack_HH [a, b, c, d] = Inr (unpack_H a b, unpack_H c d)"
| "unpack_HH _ = Inl StructError"

fun unpack_HHHB :: "byte list \<Rightarrow> error + int \<times> int \<times> int \<times> int" where
  "unpack_HHHB [a, b, c, d, e, f, g] = Inr (unpack_H a b, unpack_H c d, unpack_H e f, uint g)"
| "unpack_HHHB _ = Inl StructError"

section \<open>Clock data\<close>

text \<open>\<^verbatim>\<open>dt.datetime.now()\<close>: the next sample of the clock.\<close>

definition datetime_now :: "world \<Rightarrow> datetime \<times> world" where
  "datetime_now w = (clock w (ticks w), w\<lparr>ticks := ticks w + 1\<rparr>)"

definition read_clock_registers :: "int \<Rightarrow> int \<Rightarrow> world \<Rightarrow> (error + int list) \<times> world" where
  "read_clock_registers start count w =
     (let (now, w') = datetime_now w;
          registers = [day now, month now, year now, hour now, minute now, second now];
          end = start + count
      in if start < 0 \<or> end > int (length registers) then (Inl IndexError, w')
         else (Inr (py_slice registers start end), w'))"

section \<open>Modbus protocol\<close>

definition ILLEGAL_FUNCTION :: int where "ILLEGAL_FUNCTION = 1"
definition ILLEGAL_DATA_ADDRESS :: int where "ILLEGAL_DATA_ADDRESS = 2"
definition ILLEGAL_DATA_VALUE :: int where "ILLEGAL_DATA_VALUE = 3"

definition build_exception_response :: "int \<Rightarrow> int \<Rightarrow> int \<Rightarrow> int \<Rightarrow> int \<Rightarrow> error + byte list" where
  "build_exception_response transaction_id protocol_id unit_id function ex_code =
     (case pack_BB (function OR 128) ex_code of
        Inl e \<Rightarrow> Inl e
      | Inr pdu \<Rightarrow>
          (let length' = 1 + int (length pdu)
           in append_packed (pack_HHHB transaction_id protocol_id length' unit_id) (Inr pdu)))"

definition pack_registers :: "int list \<Rightarrow> error + byte list" where
  "pack_registers values = foldr (\<lambda>v acc. append_packed (pack_H (v AND 65535)) acc) values (Inr [])"

definition build_fc3_response :: "int \<Rightarrow> int \<Rightarrow> int \<Rightarrow> int list \<Rightarrow> error + byte list" where
  "build_fc3_response transaction_id protocol_id unit_id values =
     (let byte_count = int (length values) * 2
      in case pack_BB 3 byte_count of
           Inl e \<Rightarrow> Inl e
         | Inr pdu_header \<Rightarrow>
             (case pack_registers values of
                Inl e \<Rightarrow> Inl e
              | Inr regs \<Rightarrow>
                  (let pdu = pdu_header @ regs;
                       length' = 1 + int (length pdu)
                   in append_packed (pack_HHHB transaction_id protocol_id length' unit_id) (Inr pdu))))"

definition parse_mbap_header :: "byte list \<Rightarrow> error + int \<times> int \<times> int \<times> int" where
  "parse_mbap_header hdr = unpack_HHHB hdr"

section \<open>Socket operations\<close>

text \<open>
  \<^verbatim>\<open>sock.recv(k)\<close> returns at most \<open>k\<close> of the bytes still to come, as many as the
  transport delivers at once (at least one while the stream is open), and the empty
  string once the peer has closed. \<^verbatim>\<open>conn.sendall\<close> records the frame.
\<close>

definition recv :: "world \<Rightarrow> nat \<Rightarrow> byte list \<times> world" where
  "recv w k =
     (let m = (case chunking w of [] \<Rightarrow> k | c # _ \<Rightarrow> min k (max 1 c))
      in (take m (rx w), w\<lparr>rx := drop m (rx w), chunking := tl (chunking w)\<rparr>))"

definition sendall :: "byte list \<Rightarrow> world \<Rightarrow> world" where
  "sendall resp w = w\<lparr>tx := tx w @ [resp]\<rparr>"

text \<open>The \<^verbatim>\<open>while bytes_recd < n\<close> loop of \<^verbatim>\<open>recv_exact\<close>, with its two locals.\<close>

function recv_loop :: "world \<Rightarrow> int \<Rightarrow> byte list list \<Rightarrow> int \<Rightarrow> (error + byte list) \<times> world" where
  "recv_loop w n chunks bytes_recd =
     (if bytes_recd < n then
        (let (chunk, w') = recv w (nat (n - bytes_recd))
         in if chunk = [] then (Inl ConnectionError, w')
            else recv_loop w' n (chunks @ [chunk]) (bytes_recd + int (length chunk)))
      else (Inr (concat chunks), w))"
  by pat_completeness auto
termination
  by (relation "measure (\<lambda>(w, n, chunks, bytes_recd). nat (n - bytes_recd))") auto

definition recv_exact :: "world \<Rightarrow> int \<Rightarrow> (error + byte list) \<times> world" where
  "recv_exact w n = recv_loop w n [] 0"

section \<open>Client handler\<close>

text \<open>
  Sending a built response: a \<^verbatim>\<open>struct.error\<close> raised while building it propagates
  and nothing is sent.
\<close>

definition send_response :: "error + byte list \<Rightarrow> world \<Rightarrow> (error + unit) \<times> world" where
  "send_response r w = (case r of Inl e \<Rightarrow> (Inl e, w) | Inr resp \<Rightarrow> (Inr (), sendall resp w))"

text \<open>
  The part of the loop body of \<^verbatim>\<open>handle_client\<close> that follows the two reads: the
  empty-PDU check and the dispatch on the function code. The result \<open>Inr ()\<close> means that
  the loop goes on with the next frame.
\<close>

definition handle_pdu :: "int \<Rightarrow> int \<Rightarrow> int \<Rightarrow> byte list \<Rightarrow> world \<Rightarrow> (error + unit) \<times> world" where
  "handle_pdu transaction_id protocol_id unit_id pdu w =
     (if pdu = [] then (Inl ConnectionError, w)
      else
        (let function = uint (hd pdu)
         in if function = 3 then
              (if length pdu \<noteq> 5 then
                 send_response (build_exception_response transaction_id protocol_id unit_id
                   function ILLEGAL_DATA_VALUE) w
               else
                 (case unpack_HH (py_slice pdu 1 5) of
                    Inl e \<Rightarrow> (Inl e, w)
                  | Inr (start_addr, qty) \<Rightarrow>
                      if qty < 1 \<or> qty > 125 then
                        send_response (build_exception_response transaction_id protocol_id unit_id
                          function ILLEGAL_DATA_VALUE) w
                      else
                        (case read_clock_registers start_addr qty w of
                           (Inl IndexError, w') \<Rightarrow>
                             send_response (build_exception_response transaction_id protocol_id
                               unit_id function ILLEGAL_DATA_ADDRESS) w'
                         | (Inl e, w') \<Rightarrow> (Inl e, w')
                         | (Inr vals, w') \<Rightarrow>
                             send_response (build_fc3_response transaction_id protocol_id
                               unit_id vals) w')))
            else
              send_response (build_exception_response transaction_id protocol_id unit_id
                function ILLEGAL_FUNCTION) w))"

text \<open>One pass through the body of the \<^verbatim>\<open>while True\<close> loop: header, body, dispatch.\<close>

definition handle_frame :: "world \<Rightarrow> (error + unit) \<times> world" where
  "handle_frame w =
     (case recv_exact w 7 of
        (Inl e, w1) \<Rightarrow> (Inl e, w1)
      | (Inr hdr, w1) \<Rightarrow>
          (case parse_mbap_header hdr of
             Inl e \<Rightarrow> (Inl e, w1)
           | Inr (transaction_id, protocol_id, length', unit_id) \<Rightarrow>
               (case recv_exact w1 (length' - 1) of
                  (Inl e, w2) \<Rightarrow> (Inl e, w2)
                | (Inr pdu, w2) \<Rightarrow> handle_pdu transaction_id protocol_id unit_id pdu w2)))"

subsection \<open>Reading exactly \<open>n\<close> bytes\<close>

lemma recv_fields:
  "tx (snd (recv w k)) = tx w" "closed (snd (recv w k)) = closed w"
  "clock (snd (recv w k)) = clock w" "ticks (snd (recv w k)) = ticks w"
  by (simp_all add: recv_def Let_def)

lemma recv_loop_fields:
  "tx (snd (recv_loop w n chunks b)) = tx w \<and> closed (snd (recv_loop w n chunks b)) = closed w \<and>
   clock (snd (recv_loop w n chunks b)) = clock w \<and> ticks (snd (recv_loop w n chunks b)) = ticks w"
proof (induction w n chunks b rule: recv_loop.induct)
  case (1 w n chunks b)
  show ?case
  proof (cases "b < n")
    case False
    then show ?thesis by simp
  next
    case True
    obtain chunk w' where r: "recv w (nat (n - b)) = (chunk, w')" by (cases "recv w (nat (n - b))")
    have f: "tx w' = tx w" "closed w' = closed w" "clock w' = clock w" "ticks w' = ticks w"
      using recv_fields [of w "nat (n - b)"] r by simp_all
    show ?thesis
    proof (cases "chunk = []")
      case True
      with \<open>b < n\<close> r f show ?thesis by (subst recv_loop.simps) simp
    next
      case False
      with "1.IH" [OF \<open>b < n\<close> refl r [symmetric] False] \<open>b < n\<close> r f show ?thesis
        by (subst (1 2 3 4) recv_loop.simps) simp
    qed
  qed
qed

text \<open>
  Whatever the sizes of the partial reads, the loop returns the next \<open>n\<close> bytes of the
  stream when the peer sends that many before closing, and raises otherwise.
\<close>

lemma recv_loop_result:
  "fst (recv_loop w n chunks b) =
     (if n - b \<le> int (length (rx w)) then Inr (concat chunks @ take (nat (n - b)) (rx w))
      else Inl ConnectionError) \<and>
   (n - b \<le> int (length (rx w)) \<longrightarrow> rx (snd (recv_loop w n chunks b)) = drop (nat (n - b)) (rx w))"
proof (induction w n chunks b rule: recv_loop.induct)
  case (1 w n chunks b)
  show ?case
  proof (cases "b < n")
    case False
    then show ?thesis by simp
  next
    case True
    define k where "k = nat (n - b)"
    define m where "m = (case chunking w of [] \<Rightarrow> k | c # _ \<Rightarrow> min k (max 1 c))"
    define w' where "w' = w\<lparr>rx := drop m (rx w), chunking := tl (chunking w)\<rparr>"
    have r: "recv w (nat (n - b)) = (take m (rx w), w')"
      unfolding recv_def Let_def m_def k_def w'_def by simp
    have k: "0 < k" "int k = n - b" using True by (simp_all add: k_def)
    have m: "0 < m" "m \<le> k" using k by (auto simp: m_def split: list.splits)
    show ?thesis
    proof (cases "rx w = []")
      case True
      with \<open>b < n\<close> r show ?thesis by (subst (1 2) recv_loop.simps) simp
    next
      case False
      then have ne: "take m (rx w) \<noteq> []" using m by simp
      note IH = "1.IH" [OF \<open>b < n\<close> refl r [symmetric] ne]
      have step: "recv_loop w n chunks b =
                  recv_loop w' n (chunks @ [take m (rx w)]) (b + int (length (take m (rx w))))"
        using \<open>b < n\<close> r ne by (subst recv_loop.simps) simp
      have rx': "rx w' = drop m (rx w)" by (simp add: w'_def)
      show ?thesis
      proof (cases "m \<le> length (rx w)")
        case True
        then have l: "length (take m (rx w)) = m" by simp
        have nb: "n - (b + int m) = int (k - m)" using k m by simp
        have tk: "take m (rx w) @ take (k - m) (drop m (rx w)) = take k (rx w)"
          using m by (metis le_add_diff_inverse take_add)
        have dr: "drop (k - m) (drop m (rx w)) = drop k (rx w)"
          using m by simp
        have iff: "(k - m \<le> length (rx w) - m) = (k \<le> length (rx w))"
          using True m by auto
        show ?thesis
          using IH unfolding step l rx' nb
          using k tk dr iff by (auto simp: k_def [symmetric])
      next
        case False
        then have l: "take m (rx w) = rx w" "drop m (rx w) = []" by simp_all
        have "\<not> n - (b + int (length (rx w))) \<le> 0" "\<not> n - b \<le> int (length (rx w))"
          using False m k by linarith+
        then show ?thesis
          using IH unfolding step l rx' by simp
      qed
    qed
  qed
qed

lemma recv_exact_ok:
  "n \<le> int (length (rx w)) \<Longrightarrow>
   \<exists>w'. recv_exact w n = (Inr (take (nat n) (rx w)), w') \<and> rx w' = drop (nat n) (rx w) \<and>
        tx w' = tx w \<and> closed w' = closed w \<and> clock w' = clock w \<and> ticks w' = ticks w"
  using recv_loop_result [of w n "[]" 0] recv_loop_fields [of w n "[]" 0]
  by (cases "recv_loop w n [] 0") (simp add: recv_exact_def)

lemma recv_exact_short:
  "int (length (rx w)) < n \<Longrightarrow>
   \<exists>w'. recv_exact w n = (Inl ConnectionError, w') \<and>
        tx w' = tx w \<and> closed w' = closed w \<and> clock w' = clock w \<and> ticks w' = ticks w"
  using recv_loop_result [of w n "[]" 0] recv_loop_fields [of w n "[]" 0]
  by (cases "recv_loop w n [] 0") (simp add: recv_exact_def)

subsection \<open>Each pass of the loop consumes input\<close>

lemma send_response_rx: "rx (snd (send_response r w)) = rx w"
  by (simp add: send_response_def sendall_def split: sum.splits)

lemma read_clock_registers_rx: "rx (snd (read_clock_registers s c w)) = rx w"
  by (simp add: read_clock_registers_def datetime_now_def Let_def)

lemma handle_pdu_rx: "rx (snd (handle_pdu t p u pdu w)) = rx w"
proof -
  have rd: "\<And>s c r w'. read_clock_registers s c w = (r, w') \<Longrightarrow> rx w' = rx w"
    using read_clock_registers_rx by (metis snd_conv)
  show ?thesis
    unfolding handle_pdu_def Let_def
    by (auto simp: send_response_rx split: sum.splits prod.splits error.splits dest: rd)
qed

lemma handle_frame_progress:
  assumes "handle_frame w = (Inr u, w')"
  shows "length (rx w') < length (rx w)"
proof (cases "7 \<le> int (length (rx w))")
  case False
  then obtain w1 where "recv_exact w 7 = (Inl ConnectionError, w1)"
    using recv_exact_short [of w 7] by auto
  with assms show ?thesis by (simp add: handle_frame_def)
next
  case True
  then obtain w1 where r1: "recv_exact w 7 = (Inr (take 7 (rx w)), w1)" and rx1: "rx w1 = drop 7 (rx w)"
    using recv_exact_ok [of 7 w] by auto
  show ?thesis
  proof (cases "parse_mbap_header (take 7 (rx w))")
    case (Inl e)
    with assms r1 show ?thesis by (simp add: handle_frame_def)
  next
    case (Inr h)
    obtain t p l u' where h: "h = (t, p, l, u')" by (cases h)
    show ?thesis
    proof (cases "l - 1 \<le> int (length (rx w1))")
      case False
      then obtain w2 where "recv_exact w1 (l - 1) = (Inl ConnectionError, w2)"
        using recv_exact_short [of w1 "l - 1"] by auto
      with assms r1 Inr h show ?thesis by (simp add: handle_frame_def)
    next
      case True
      then obtain w2 where r2: "recv_exact w1 (l - 1) = (Inr (take (nat (l - 1)) (rx w1)), w2)"
        and rx2: "rx w2 = drop (nat (l - 1)) (rx w1)"
        using recv_exact_ok [of "l - 1" w1] by auto
      from assms r1 Inr h r2 have "w' = snd (handle_pdu t p u' (take (nat (l - 1)) (rx w1)) w2)"
        by (simp add: handle_frame_def)
      then have "rx w' = rx w2" by (simp add: handle_pdu_rx)
      with rx1 rx2 \<open>7 \<le> int (length (rx w))\<close> show ?thesis by simp
    qed
  qed
qed

text \<open>
  The \<^verbatim>\<open>while True\<close> loop inside \<^verbatim>\<open>try\<close>/\<^verbatim>\<open>except\<close>/\<^verbatim>\<open>finally\<close>: it ends
  with the first exception, \<^verbatim>\<open>conn.close()\<close> runs whatever the exception is, and the
  result names the exception (a \<open>ConnectionError\<close> is caught and logged, a
  \<open>StructError\<close> propagates to the thread).
\<close>

function handle_client :: "world \<Rightarrow> error \<times> world" where
  "handle_client w =
     (case handle_frame w of
        (Inl e, w') \<Rightarrow> (e, w'\<lparr>closed := True\<rparr>)
      | (Inr u, w') \<Rightarrow> handle_client w')"
  by pat_completeness auto
termination
  by (relation "measure (\<lambda>w. length (rx w))") (auto dest: handle_frame_progress [OF sym])

declare handle_client.simps [simp del]

section \<open>A fixed time source\<close>

definition mock_now :: datetime where
  "mock_now = \<lparr>day = 15, month = 6, year = 2025, hour = 13, minute = 45, second = 30\<rparr>"

definition mock_world :: "byte list \<Rightarrow> world" where
  "mock_world request =
     \<lparr>rx = request, chunking = [], tx = [], closed = False, clock = (\<lambda>_. mock_now), ticks = 0\<rparr>"

section \<open>Encoding of values that come from the wire\<close>

lemma unpack_H_range: "0 \<le> unpack_H a b" "unpack_H a b \<le> 65535"
proof -
  have "uint a < 256" "uint b < 256" using uint_lt2p [of a] uint_lt2p [of b] by simp_all
  then show "0 \<le> unpack_H a b" "unpack_H a b \<le> 65535" by (simp_all add: unpack_H_def)
qed

lemma uint16_be_unpack_H: "uint16_be (unpack_H a b) = [a, b]"
proof -
  have b: "0 \<le> uint b" "uint b < 256" using uint_lt2p [of b] by simp_all
  then have "(uint a * 256 + uint b) div 256 = uint a" "(uint a * 256 + uint b) mod 256 = uint b"
    by simp_all
  then show ?thesis by (simp add: uint16_be_def unpack_H_def)
qed

lemma length_uint16_be [simp]: "length (uint16_be v) = 2"
  by (simp add: uint16_be_def)

lemma pack_H_unpack_H: "pack_H (unpack_H a b) = Inr [a, b]"
  by (simp add: pack_H_def unpack_H_range uint16_be_unpack_H)

lemma pack_B_uint: "pack_B (uint (g :: byte)) = Inr [g]"
proof -
  have "uint g < 256" using uint_lt2p [of g] by simp
  then show ?thesis by (simp add: pack_B_def)
qed

lemma uint_or_128: "uint (f :: byte) OR 128 = uint (f OR 128)"
  by (simp add: uint_or)

lemma pack_B_function: "pack_B (uint (f :: byte) OR 128) = Inr [f OR 128]"
  unfolding uint_or_128 by (rule pack_B_uint)

lemma pack_B_small: "0 \<le> v \<Longrightarrow> v \<le> 255 \<Longrightarrow> pack_B v = Inr [word_of_int v]"
  by (simp add: pack_B_def)

lemma pack_H_small: "0 \<le> v \<Longrightarrow> v \<le> 65535 \<Longrightarrow> pack_H v = Inr (uint16_be v)"
  by (simp add: pack_H_def)

lemma pack_HHHB_wire:
  "0 \<le> n \<Longrightarrow> n \<le> 65535 \<Longrightarrow>
   pack_HHHB (unpack_H a b) (unpack_H c d) n (uint g) = Inr ([a, b, c, d] @ uint16_be n @ [g])"
  by (simp add: pack_HHHB_def pack_H_unpack_H pack_B_uint pack_H_small)

lemma build_exception_response_wire:
  assumes "0 \<le> ex_code" "ex_code \<le> 255"
  shows "build_exception_response (unpack_H a b) (unpack_H c d) (uint g) (uint f) ex_code =
           Inr [a, b, c, d, 0, 3, g, f OR 128, word_of_int ex_code]"
proof -
  have "pack_BB (uint f OR 128) ex_code = Inr [f OR 128, word_of_int ex_code]"
    using assms by (simp add: pack_BB_def pack_B_function pack_B_small)
  moreover have "pack_HHHB (unpack_H a b) (unpack_H c d) 3 (uint g) = Inr [a, b, c, d, 0, 3, g]"
    by (simp add: pack_HHHB_wire uint16_be_def)
  ultimately show ?thesis by (simp add: build_exception_response_def)
qed

lemma pack_registers_eq:
  "pack_registers values = Inr (concat (map (\<lambda>v. uint16_be (v AND 65535)) values))"
proof (induction "values")
  case Nil
  then show ?case by (simp add: pack_registers_def)
next
  case (Cons v vs)
  have "0 \<le> v AND 65535" "v AND 65535 \<le> 65535" by simp_all
  with Cons show ?case by (simp add: pack_registers_def pack_H_def)
qed

lemma length_registers:
  "length (concat (map (\<lambda>v. uint16_be (v AND 65535)) values)) = 2 * length values"
  by (induction "values") (simp_all add: uint16_be_def)

lemma build_fc3_response_wire:
  assumes "length values \<le> 127"
  shows "build_fc3_response (unpack_H a b) (unpack_H c d) (uint g) values =
           Inr ([a, b, c, d] @ uint16_be (3 + 2 * int (length values)) @
                [g, 3, word_of_int (2 * int (length values))] @
                concat (map (\<lambda>v. uint16_be (v AND 65535)) values))"
proof -
  have "pack_BB 3 (int (length values) * 2) = Inr [3, word_of_int (2 * int (length values))]"
    using assms by (simp add: pack_BB_def pack_B_small mult.commute)
  moreover have "pack_HHHB (unpack_H a b) (unpack_H c d) (3 + 2 * int (length values)) (uint g) =
      Inr ([a, b, c, d] @ uint16_be (3 + 2 * int (length values)) @ [g])"
    using assms by (simp add: pack_HHHB_wire)
  ultimately show ?thesis
    by (simp add: build_fc3_response_def Let_def pack_registers_eq length_registers)
qed

section \<open>Reading the registers in range and out of range\<close>

lemma py_slice_in_range:
  "0 \<le> i \<Longrightarrow> i \<le> j \<Longrightarrow> j \<le> int (length xs) \<Longrightarrow>
   py_slice xs i j = map ((!) xs) [nat i..<nat j]"
  apply (simp add: py_slice_def clamp_index_def Let_def)
  apply (rule nth_equalityI)
   apply (auto simp: nat_diff_distrib)
  done

lemma read_clock_registers_ok:
  "0 \<le> start \<Longrightarrow> 0 \<le> count \<Longrightarrow> start + count \<le> 6 \<Longrightarrow>
   read_clock_registers start count w =
     (Inr (map ((!) (let now = clock w (ticks w)
                     in [day now, month now, year now, hour now, minute now, second now]))
            [nat start..<nat (start + count)]),
      w\<lparr>ticks := ticks w + 1\<rparr>)"
  by (simp add: read_clock_registers_def datetime_now_def Let_def py_slice_in_range)

lemma read_clock_registers_fail:
  "start < 0 \<or> start + count > 6 \<Longrightarrow>
   read_clock_registers start count w = (Inl IndexError, w\<lparr>ticks := ticks w + 1\<rparr>)"
  by (simp add: read_clock_registers_def datetime_now_def Let_def)

section \<open>What one pass of the loop does with a frame\<close>

lemma uint_eq_3: "(uint (f :: byte) = 3) = (f = 3)"
  by (simp add: word_uint_eq_iff)

lemma handle_pdu_illegal_function:
  assumes "pdu \<noteq> []" "hd pdu \<noteq> 3"
  shows "handle_pdu (unpack_H a b) (unpack_H c d) (uint g) pdu w =
           (Inr (), w\<lparr>tx := tx w @ [[a, b, c, d, 0, 3, g, hd pdu OR 128, 1]]\<rparr>)"
  using assms
  by (simp add: handle_pdu_def Let_def uint_eq_3 ILLEGAL_FUNCTION_def
      build_exception_response_wire send_response_def sendall_def)

lemma handle_pdu_bad_length:
  assumes "pdu \<noteq> []" "hd pdu = 3" "length pdu \<noteq> 5"
  shows "handle_pdu (unpack_H a b) (unpack_H c d) (uint g) pdu w =
           (Inr (), w\<lparr>tx := tx w @ [[a, b, c, d, 0, 3, g, 131, 3]]\<rparr>)"
proof -
  have "build_exception_response (unpack_H a b) (unpack_H c d) (uint g) (uint (3 :: byte)) 3 =
          Inr [a, b, c, d, 0, 3, g, 131, 3]"
    using build_exception_response_wire [of 3 a b c d g 3] by simp
  then show ?thesis
    using assms
    by (simp add: handle_pdu_def Let_def ILLEGAL_DATA_VALUE_def send_response_def sendall_def)
qed

lemma handle_pdu_read:
  "handle_pdu (unpack_H a b) (unpack_H c d) (uint g) [3, s1, s2, q1, q2] w =
     (let start_addr = unpack_H s1 s2; qty = unpack_H q1 q2
      in if qty < 1 \<or> qty > 125 then
           (Inr (), w\<lparr>tx := tx w @ [[a, b, c, d, 0, 3, g, 131, 3]]\<rparr>)
         else if start_addr + qty > 6 then
           (Inr (), w\<lparr>ticks := ticks w + 1, tx := tx w @ [[a, b, c, d, 0, 3, g, 131, 2]]\<rparr>)
         else
           (Inr (), w\<lparr>ticks := ticks w + 1,
              tx := tx w @ [[a, b, c, d] @ uint16_be (3 + 2 * qty) @ [g, 3, word_of_int (2 * qty)] @
                concat (map (\<lambda>v. uint16_be (v AND 65535))
                  (map ((!) (let now = clock w (ticks w)
                             in [day now, month now, year now, hour now, minute now, second now]))
                     [nat start_addr..<nat (start_addr + qty)]))]\<rparr>))"
proof -
  have e3: "build_exception_response (unpack_H a b) (unpack_H c d) (uint g) (uint (3 :: byte)) 3 =
          Inr [a, b, c, d, 0, 3, g, 131, 3]"
    and e2: "build_exception_response (unpack_H a b) (unpack_H c d) (uint g) (uint (3 :: byte)) 2 =
          Inr [a, b, c, d, 0, 3, g, 131, 2]"
    using build_exception_response_wire [of 3 a b c d g 3]
      build_exception_response_wire [of 2 a b c d g 3] by simp_all
  have sl: "py_slice [3, s1, s2, q1, q2] 1 5 = [s1, s2, q1, q2]"
    by (simp add: py_slice_def clamp_index_def)
  define start_addr where "start_addr = unpack_H s1 s2"
  define qty where "qty = unpack_H q1 q2"
  have s0: "0 \<le> start_addr" by (simp add: start_addr_def unpack_H_range)
  have hp: "handle_pdu (unpack_H a b) (unpack_H c d) (uint g) [3, s1, s2, q1, q2] w =
     (if qty < 1 \<or> qty > 125 then
        send_response (Inr [a, b, c, d, 0, 3, g, 131, 3]) w
      else
        (case read_clock_registers start_addr qty w of
           (Inl IndexError, w') \<Rightarrow>
             send_response (build_exception_response (unpack_H a b) (unpack_H c d) (uint g) 3
               ILLEGAL_DATA_ADDRESS) w'
         | (Inl e, w') \<Rightarrow> (Inl e, w')
         | (Inr vals, w') \<Rightarrow>
             send_response (build_fc3_response (unpack_H a b) (unpack_H c d) (uint g) vals) w'))"
    using e3
    by (simp add: handle_pdu_def sl ILLEGAL_DATA_VALUE_def start_addr_def qty_def)
  show ?thesis
  proof (cases "qty < 1 \<or> qty > 125")
    case True
    then show ?thesis
      unfolding hp Let_def start_addr_def [symmetric] qty_def [symmetric]
      by (simp add: send_response_def sendall_def)
  next
    case q: False
    show ?thesis
    proof (cases "start_addr + qty > 6")
      case True
      then show ?thesis
        unfolding hp Let_def start_addr_def [symmetric] qty_def [symmetric]
        using q e2
        by (simp add: read_clock_registers_fail send_response_def sendall_def
            ILLEGAL_DATA_ADDRESS_def)
    next
      case False
      with q s0 have ok: "0 \<le> start_addr" "0 \<le> qty" "start_addr + qty \<le> 6" by simp_all
      have len: "length [nat start_addr..<nat (start_addr + qty)] = nat qty"
        using ok by (simp add: nat_add_distrib)
      have q127: "nat qty \<le> 127" using ok by simp
      show ?thesis
        unfolding hp Let_def start_addr_def [symmetric] qty_def [symmetric]
        using q False ok
        by (simp add: read_clock_registers_ok build_fc3_response_wire len q127
            send_response_def sendall_def Let_def)
    qed
  qed
qed

lemma handle_frame_decode:
  assumes "rx w = [a, b, c, d, e, f, g] @ pdu @ rest" "unpack_H e f = 1 + int (length pdu)"
  shows "\<exists>w2. handle_frame w = handle_pdu (unpack_H a b) (unpack_H c d) (uint g) pdu w2 \<and>
           rx w2 = rest \<and> tx w2 = tx w \<and> closed w2 = closed w \<and> clock w2 = clock w \<and>
           ticks w2 = ticks w"
proof -
  have "7 \<le> int (length (rx w))" using assms by simp
  from recv_exact_ok [OF this] obtain w1 where
    r1: "recv_exact w 7 = (Inr [a, b, c, d, e, f, g], w1)" and w1: "rx w1 = pdu @ rest"
    "tx w1 = tx w" "closed w1 = closed w" "clock w1 = clock w" "ticks w1 = ticks w"
    using assms by auto
  have "unpack_H e f - 1 \<le> int (length (rx w1))" using assms w1 by simp
  from recv_exact_ok [OF this] obtain w2 where
    r2: "recv_exact w1 (unpack_H e f - 1) = (Inr pdu, w2)" and w2: "rx w2 = rest"
    "tx w2 = tx w1" "closed w2 = closed w1" "clock w2 = clock w1" "ticks w2 = ticks w1"
    using assms w1 by auto
  have "handle_frame w = handle_pdu (unpack_H a b) (unpack_H c d) (uint g) pdu w2"
    using r1 r2 by (simp add: handle_frame_def parse_mbap_header_def)
  with w1 w2 show ?thesis by auto
qed

lemma length_seven:
  assumes "length (ys :: 'a list) = 7"
  shows "\<exists>a b c d e f g. ys = [a, b, c, d, e, f, g]"
  using assms by (auto simp: length_Suc_conv numeral_eq_Suc)

lemma seven_bytes:
  assumes "7 \<le> length (xs :: 'a list)"
  shows "\<exists>a b c d e f g rest. xs = [a, b, c, d, e, f, g] @ rest"
proof -
  have "length (take 7 xs) = 7" using assms by simp
  from length_seven [OF this] obtain a b c d e f g where "take 7 xs = [a, b, c, d, e, f, g]"
    by blast
  then have "xs = [a, b, c, d, e, f, g] @ drop 7 xs"
    by (metis append_take_drop_id)
  then show ?thesis by blast
qed

lemma five_bytes:
  assumes "length (xs :: 'a list) = 5"
  shows "\<exists>a b c d e. xs = [a, b, c, d, e]"
  using assms by (auto simp: length_Suc_conv numeral_eq_Suc)

lemma handle_frame_no_header:
  assumes "length (rx w) < 7"
  shows "\<exists>w'. handle_frame w = (Inl ConnectionError, w') \<and> tx w' = tx w \<and>
           closed w' = closed w \<and> clock w' = clock w \<and> ticks w' = ticks w"
proof -
  have "int (length (rx w)) < 7" using assms by simp
  from recv_exact_short [OF this] show ?thesis by (auto simp: handle_frame_def)
qed

lemma handle_frame_no_body:
  assumes "rx w = [a, b, c, d, e, f, g] @ rest"
    and "unpack_H e f \<le> 1 \<or> int (length rest) < unpack_H e f - 1"
  shows "\<exists>w'. handle_frame w = (Inl ConnectionError, w') \<and> tx w' = tx w \<and>
           closed w' = closed w \<and> clock w' = clock w \<and> ticks w' = ticks w"
proof -
  have "7 \<le> int (length (rx w))" using assms by simp
  from recv_exact_ok [OF this] obtain w1 where
    r1: "recv_exact w 7 = (Inr [a, b, c, d, e, f, g], w1)" and w1: "rx w1 = rest"
    "tx w1 = tx w" "closed w1 = closed w" "clock w1 = clock w" "ticks w1 = ticks w"
    using assms by auto
  show ?thesis
  proof (cases "unpack_H e f \<le> 1")
    case True
    then have "unpack_H e f - 1 \<le> int (length (rx w1))" by simp
    from recv_exact_ok [OF this] obtain w2 where
      r2: "recv_exact w1 (unpack_H e f - 1) = (Inr [], w2)" and w2:
      "tx w2 = tx w1" "closed w2 = closed w1" "clock w2 = clock w1" "ticks w2 = ticks w1"
      using True by auto
    have "handle_frame w = (Inl ConnectionError, w2)"
      using r1 r2 by (simp add: handle_frame_def parse_mbap_header_def handle_pdu_def)
    with w1 w2 show ?thesis by simp
  next
    case False
    with assms have "int (length (rx w1)) < unpack_H e f - 1" using w1 by simp
    from recv_exact_short [OF this] obtain w2 where
      r2: "recv_exact w1 (unpack_H e f - 1) = (Inl ConnectionError, w2)" and w2:
      "tx w2 = tx w1" "closed w2 = closed w1" "clock w2 = clock w1" "ticks w2 = ticks w1"
      by auto
    have "handle_frame w = (Inl ConnectionError, w2)"
      using r1 r2 by (simp add: handle_frame_def parse_mbap_header_def)
    with w1 w2 show ?thesis by simp
  qed
qed

text \<open>The PDU that the second read returns, when the stream holds it all.\<close>

lemma body_split:
  assumes "1 < n" "n - 1 \<le> int (length rest)"
  shows "\<exists>pdu rest'. rest = pdu @ rest' \<and> n = 1 + int (length pdu) \<and> pdu \<noteq> []"
proof -
  let ?pdu = "take (nat (n - 1)) rest"
  have "rest = ?pdu @ drop (nat (n - 1)) rest" by simp
  moreover have "int (length ?pdu) = n - 1" using assms by simp
  moreover have "?pdu \<noteq> []" using assms by auto
  ultimately show ?thesis by (metis diff_add_cancel add.commute)
qed

text \<open>
  Every non-empty PDU is answered. The answer, and whether the clock is read for it, do
  not depend on the protocol identifier, which only appears in the echoed header.
\<close>

lemma handle_pdu_wire_pair:
  assumes "pdu \<noteq> []" "clock v = clock w" "ticks v = ticks w"
  shows "\<exists>pdu' k. pdu' \<noteq> [] \<and> length pdu' \<le> 254 \<and>
     handle_pdu (unpack_H a b) (unpack_H c d) (uint g) pdu w =
       (Inr (), w\<lparr>ticks := ticks w + k,
          tx := tx w @ [[a, b, c, d] @ uint16_be (1 + int (length pdu')) @ [g] @ pdu']\<rparr>) \<and>
     handle_pdu (unpack_H a b) (unpack_H c' d') (uint g) pdu v =
       (Inr (), v\<lparr>ticks := ticks v + k,
          tx := tx v @ [[a, b, c', d'] @ uint16_be (1 + int (length pdu')) @ [g] @ pdu']\<rparr>)"
proof (cases "hd pdu = 3")
  case False
  show ?thesis
    apply (rule exI [of _ "[hd pdu OR 128, 1]"], rule exI [of _ 0])
    apply (simp add: handle_pdu_illegal_function [OF assms(1) False] uint16_be_def)
    done
next
  case fc3: True
  show ?thesis
  proof (cases "length pdu = 5")
    case False
    show ?thesis
      apply (rule exI [of _ "[131, 3]"], rule exI [of _ 0])
      apply (simp add: handle_pdu_bad_length [OF assms(1) fc3 False] uint16_be_def)
      done
  next
    case True
    from five_bytes [OF this] fc3 obtain s1 s2 q1 q2 where p: "pdu = [3, s1, s2, q1, q2]"
      by auto
    define start_addr where "start_addr = unpack_H s1 s2"
    define qty where "qty = unpack_H q1 q2"
    have s0: "0 \<le> start_addr" by (simp add: start_addr_def unpack_H_range)
    show ?thesis
    proof (cases "qty < 1 \<or> qty > 125")
      case True
      show ?thesis
        apply (rule exI [of _ "[131, 3]"], rule exI [of _ 0])
        using True
        apply (simp add: p handle_pdu_read Let_def qty_def uint16_be_def)
        done
    next
      case q: False
      show ?thesis
      proof (cases "start_addr + qty > 6")
        case True
        show ?thesis
          apply (rule exI [of _ "[131, 2]"], rule exI [of _ 1])
          using True q
          apply (simp add: p handle_pdu_read Let_def qty_def start_addr_def uint16_be_def)
          done
      next
        case False
        define vals where "vals = map ((!) (let now = clock w (ticks w)
              in [day now, month now, year now, hour now, minute now, second now]))
            [nat start_addr..<nat (start_addr + qty)]"
        have len: "int (length vals) = qty" using s0 q by (simp add: vals_def nat_add_distrib)
        then have l6: "length vals \<le> 6" using False s0 by simp
        define pdu' where "pdu' = [3, word_of_int (2 * qty)] @
                   concat (map (\<lambda>v. uint16_be (v AND 65535)) vals)"
        have l: "1 + int (length pdu') = 3 + 2 * qty" "length pdu' \<le> 254" "pdu' \<noteq> []"
          using len l6 by (simp_all add: pdu'_def length_registers)
        have hw: "handle_pdu (unpack_H a b) (unpack_H c d) (uint g) pdu w =
            (Inr (), w\<lparr>ticks := ticks w + 1,
               tx := tx w @ [[a, b, c, d] @ uint16_be (3 + 2 * qty) @ [g] @ pdu']\<rparr>)" for c d
          using False q
          by (simp add: p handle_pdu_read Let_def qty_def [symmetric] start_addr_def [symmetric]
              vals_def pdu'_def)
        have hv: "handle_pdu (unpack_H a b) (unpack_H c' d') (uint g) pdu v =
            (Inr (), v\<lparr>ticks := ticks v + 1,
               tx := tx v @ [[a, b, c', d'] @ uint16_be (3 + 2 * qty) @ [g] @ pdu']\<rparr>)"
          using False q
          by (simp add: p handle_pdu_read Let_def qty_def [symmetric] start_addr_def [symmetric]
              vals_def pdu'_def assms)
        show ?thesis
          apply (rule exI [of _ pdu'], rule exI [of _ 1])
          apply (simp only: l hw hv)
          apply simp
          done
      qed
    qed
  qed
qed

lemma uint_byte_of_int: "0 \<le> v \<Longrightarrow> v \<le> 255 \<Longrightarrow> uint (word_of_int v :: byte) = v"
  by (simp add: uint_word_of_int take_bit_int_eq_self)

lemma handle_frame_wire_pair:
  assumes "rx w = [a, b, c, d, e, f, g] @ rest" "rx v = [a, b, c', d', e, f, g] @ rest"
    and "clock v = clock w" "ticks v = ticks w"
  shows "(\<exists>w' v'. handle_frame w = (Inl ConnectionError, w') \<and>
            handle_frame v = (Inl ConnectionError, v') \<and>
            tx w' = tx w \<and> tx v' = tx v \<and> ticks w' = ticks w \<and> ticks v' = ticks w) \<or>
         (\<exists>w' v' pdu'. pdu' \<noteq> [] \<and> length pdu' \<le> 254 \<and>
            handle_frame w = (Inr (), w') \<and> handle_frame v = (Inr (), v') \<and>
            tx w' = tx w @ [[a, b, c, d] @ uint16_be (1 + int (length pdu')) @ [g] @ pdu'] \<and>
            tx v' = tx v @ [[a, b, c', d'] @ uint16_be (1 + int (length pdu')) @ [g] @ pdu'] \<and>
            ticks v' = ticks w' \<and> rx v' = rx w' \<and> clock v' = clock w')"
proof (cases "unpack_H e f \<le> 1 \<or> int (length rest) < unpack_H e f - 1")
  case True
  from handle_frame_no_body [OF assms(1) True] handle_frame_no_body [OF assms(2) True] assms(3,4)
  show ?thesis by (metis (no_types))
next
  case False
  then have "1 < unpack_H e f" "unpack_H e f - 1 \<le> int (length rest)" by simp_all
  from body_split [OF this] obtain pdu rest' where
    b: "rest = pdu @ rest'" "unpack_H e f = 1 + int (length pdu)" "pdu \<noteq> []"
    by blast
  from handle_frame_decode [OF assms(1) [unfolded b(1)] b(2)] obtain w2 where w2:
    "handle_frame w = handle_pdu (unpack_H a b) (unpack_H c d) (uint g) pdu w2"
    "rx w2 = rest'" "tx w2 = tx w" "clock w2 = clock w" "ticks w2 = ticks w"
    by blast
  from handle_frame_decode [OF assms(2) [unfolded b(1)] b(2)] obtain v2 where v2:
    "handle_frame v = handle_pdu (unpack_H a b) (unpack_H c' d') (uint g) pdu v2"
    "rx v2 = rest'" "tx v2 = tx v" "clock v2 = clock v" "ticks v2 = ticks v"
    by blast
  have "clock v2 = clock w2" "ticks v2 = ticks w2" using w2 v2 assms by simp_all
  from handle_pdu_wire_pair [OF b(3) this, of a b c d g c' d'] obtain pdu' k where
    p: "pdu' \<noteq> []" "length pdu' \<le> 254"
    "handle_pdu (unpack_H a b) (unpack_H c d) (uint g) pdu w2 =
       (Inr (), w2\<lparr>ticks := ticks w2 + k,
          tx := tx w2 @ [[a, b, c, d] @ uint16_be (1 + int (length pdu')) @ [g] @ pdu']\<rparr>)"
    "handle_pdu (unpack_H a b) (unpack_H c' d') (uint g) pdu v2 =
       (Inr (), v2\<lparr>ticks := ticks v2 + k,
          tx := tx v2 @ [[a, b, c', d'] @ uint16_be (1 + int (length pdu')) @ [g] @ pdu']\<rparr>)"
    by blast
  show ?thesis
    apply (rule disjI2)
    apply (rule exI [of _ "w2\<lparr>ticks := ticks w2 + k,
          tx := tx w2 @ [[a, b, c, d] @ uint16_be (1 + int (length pdu')) @ [g] @ pdu']\<rparr>"])
    apply (rule exI [of _ "v2\<lparr>ticks := ticks v2 + k,
          tx := tx v2 @ [[a, b, c', d'] @ uint16_be (1 + int (length pdu')) @ [g] @ pdu']\<rparr>"])
    apply (rule exI [of _ pdu'])
    apply (simp add: p w2 v2 assms)
    done
qed

lemma handle_frame_sends:
  assumes "handle_frame w = (r, w')"
  shows "(r = Inl ConnectionError \<and> tx w' = tx w) \<or>
         (r = Inr () \<and> (\<exists>a b c d e f g rest pdu'. rx w = [a, b, c, d, e, f, g] @ rest \<and>
            pdu' \<noteq> [] \<and> length pdu' \<le> 254 \<and>
            tx w' = tx w @ [[a, b, c, d] @ uint16_be (1 + int (length pdu')) @ [g] @ pdu']))"
proof (cases "length (rx w) < 7")
  case True
  from handle_frame_no_header [OF this] assms show ?thesis by auto
next
  case False
  then have "7 \<le> length (rx w)" by simp
  from seven_bytes [OF this] obtain a b c d e f g rest where
    rxw: "rx w = [a, b, c, d, e, f, g] @ rest"
    by blast
  from handle_frame_wire_pair [OF rxw rxw refl refl] assms rxw
  show ?thesis by auto
qed

lemma unpack_H_uint16_be:
  assumes "0 \<le> v" "v \<le> 65535"
  shows "unpack_H (uint16_be v ! 0) (uint16_be v ! 1) = v"
proof -
  have "0 \<le> v div 256" "v div 256 \<le> 255" "0 \<le> v mod 256" "v mod 256 \<le> 255"
    using assms by simp_all
  then have "uint (word_of_int (v div 256) :: byte) = v div 256"
    "uint (word_of_int (v mod 256) :: byte) = v mod 256"
    by (simp_all only: uint_byte_of_int)
  then show ?thesis by (simp add: unpack_H_def uint16_be_def)
qed

lemma handle_frame_length_field:
  assumes "handle_frame w = (r, w')"
  shows "tx w' = tx w \<or>
         (\<exists>resp. tx w' = tx w @ [resp] \<and> 7 \<le> length resp \<and>
            unpack_H (resp ! 4) (resp ! 5) = 1 + int (length (drop 7 resp)))"
proof (cases "tx w' = tx w")
  case True
  then show ?thesis by simp
next
  case False
  with handle_frame_sends [OF assms] obtain a b c d g pdu' where
    h: "length pdu' \<le> 254"
    "tx w' = tx w @ [[a, b, c, d] @ uint16_be (1 + int (length pdu')) @ [g] @ pdu']"
    by auto
  have "unpack_H (uint16_be (1 + int (length pdu')) ! 0) (uint16_be (1 + int (length pdu')) ! 1) =
          1 + int (length pdu')"
    using h(1) by (intro unpack_H_uint16_be) simp_all
  then have "unpack_H (([a, b, c, d] @ uint16_be (1 + int (length pdu')) @ [g] @ pdu') ! 4)
               (([a, b, c, d] @ uint16_be (1 + int (length pdu')) @ [g] @ pdu') ! 5) =
             1 + int (length (drop 7 ([a, b, c, d] @ uint16_be (1 + int (length pdu')) @ [g] @ pdu')))"
    by (simp add: uint16_be_def)
  then show ?thesis
    using h(2) by (simp add: uint16_be_def)
qed

lemma handle_client_last_frame:
  assumes "handle_frame w = (Inr (), w')" "length (rx w') < 7"
  shows "fst (handle_client w) = ConnectionError \<and> tx (snd (handle_client w)) = tx w' \<and>
         closed (snd (handle_client w))"
proof -
  from handle_frame_no_header [OF assms(2)] obtain w'' where w'':
    "handle_frame w' = (Inl ConnectionError, w'')" "tx w'' = tx w'"
    by blast
  have "handle_client w' = (ConnectionError, w''\<lparr>closed := True\<rparr>)"
    using w'' by (subst handle_client.simps) simp
  then have "handle_client w = (ConnectionError, w''\<lparr>closed := True\<rparr>)"
    using assms(1) by (subst handle_client.simps) simp
  then show ?thesis by (simp add: w'')
qed

section \<open>The register source\<close>

text \<open>
  C6 (as amended). \<open>read_clock_registers start count\<close> raises \<open>IndexError\<close> if and only
  if \<open>start < 0\<close> or \<open>start + count > 6\<close>, and raises nothing else. When it does not raise and \<open>count\<close> is not
  negative, it returns exactly \<open>count\<close> values: the elements at the indices \<open>start\<close> to
  \<open>start + count - 1\<close> of the bank \<open>[day, month, year, hour, minute, second]\<close> taken from
  the clock sample of this call.
\<close>

theorem read_clock_registers_contract:
  "(fst (read_clock_registers start count w) = Inl IndexError) = (start < 0 \<or> start + count > 6) \<and>
   (\<forall>e. fst (read_clock_registers start count w) = Inl e \<longrightarrow> e = IndexError) \<and>
   (\<not> (start < 0 \<or> start + count > 6) \<and> 0 \<le> count \<longrightarrow>
      (\<exists>vals. fst (read_clock_registers start count w) = Inr vals \<and>
         int (length vals) = count \<and>
         (\<forall>i < nat count. vals ! i =
            [day (clock w (ticks w)), month (clock w (ticks w)), year (clock w (ticks w)),
             hour (clock w (ticks w)), minute (clock w (ticks w)), second (clock w (ticks w))]
              ! (nat start + i))))"
proof (intro conjI impI)
  show "(fst (read_clock_registers start count w) = Inl IndexError) = (start < 0 \<or> start + count > 6)"
    by (simp add: read_clock_registers_def datetime_now_def Let_def)
next
  show "\<forall>e. fst (read_clock_registers start count w) = Inl e \<longrightarrow> e = IndexError"
    by (simp add: read_clock_registers_def datetime_now_def Let_def)
next
  assume a: "\<not> (start < 0 \<or> start + count > 6) \<and> 0 \<le> count"
  then have "0 \<le> start" "0 \<le> count" "start + count \<le> 6" by auto
  from read_clock_registers_ok [OF this, of w] a
  show "\<exists>vals. fst (read_clock_registers start count w) = Inr vals \<and>
         int (length vals) = count \<and>
         (\<forall>i < nat count. vals ! i =
            [day (clock w (ticks w)), month (clock w (ticks w)), year (clock w (ticks w)),
             hour (clock w (ticks w)), minute (clock w (ticks w)), second (clock w (ticks w))]
              ! (nat start + i))"
    by (simp add: Let_def nat_add_distrib)
qed

theorem read_clock_registers_contract_witness:
  "fst (read_clock_registers 2 3 (mock_world [])) = Inr [2025, 13, 45] \<and>
   fst (read_clock_registers 4 5 (mock_world [])) = Inl IndexError"
proof -
  have e: "[nat 2..<nat 5] = [2, 3, 4]" by (simp add: upt_rec)
  obtain vals where v: "fst (read_clock_registers 2 3 (mock_world [])) = Inr vals"
    "int (length vals) = 3" "\<forall>i < nat 3. vals ! i = [15, 6, 2025, 13, 45, 30] ! (nat 2 + i)"
    using read_clock_registers_contract [of 2 3 "mock_world []"]
    by (auto simp: mock_world_def mock_now_def)
  have "vals = [2025, 13, 45]"
  proof (rule nth_equalityI)
    show "length vals = length [2025, 13, 45 :: int]" using v(2) by simp
  next
    fix i assume "i < length vals"
    then have "i < 3" using v(2) by simp
    then have "i = 0 \<or> i = 1 \<or> i = 2" by auto
    with v(3) show "vals ! i = [2025, 13, 45] ! i" by (auto simp: numeral_2_eq_2 numeral_3_eq_3)
  qed
  moreover have "fst (read_clock_registers 4 5 (mock_world [])) = Inl IndexError"
    using read_clock_registers_contract [of 4 5 "mock_world []"] by simp
  ultimately show ?thesis using v(1) by simp
qed

text \<open>
  C6 as first stated (exactly \<open>count\<close> values whenever the call does not raise)
  fails for a negative \<open>count\<close>: \<^verbatim>\<open>read_clock_registers(0, -1)\<close> passes the range check
  and the slice \<^verbatim>\<open>registers[0:-1]\<close> has five elements.
\<close>

theorem read_clock_registers_negative_count:
  "fst (read_clock_registers 0 (- 1) (mock_world [])) = Inr [15, 6, 2025, 13, 45] \<and>
   int (length [15, 6, 2025, 13, 45 :: int]) \<noteq> - 1"
  by (simp add: read_clock_registers_def datetime_now_def mock_world_def mock_now_def
      py_slice_def clamp_index_def Let_def)

section \<open>Unsupported function codes\<close>

text \<open>
  C5. For every non-empty PDU whose function code is not \<open>0x03\<close>, whatever its payload
  and its length, the server answers with an exception response whose PDU is exactly the
  two bytes \<open>functionCode | 0x80\<close> and \<open>0x01\<close> (Illegal Function); the clock is not
  read, so no other function code is served.
\<close>

theorem illegal_function_response:
  assumes "rx w = [a, b, c, d, e, f, g] @ pdu @ rest"
    and "unpack_H e f = 1 + int (length pdu)"
    and "pdu \<noteq> []" and "hd pdu \<noteq> 3"
  shows "\<exists>w'. handle_frame w = (Inr (), w') \<and>
           tx w' = tx w @ [[a, b, c, d, 0, 3, g] @ [hd pdu OR 128, 1]] \<and>
           ticks w' = ticks w \<and> rx w' = rest"
proof -
  from handle_frame_decode [OF assms(1,2)] obtain w2 where
    "handle_frame w = handle_pdu (unpack_H a b) (unpack_H c d) (uint g) pdu w2"
    "rx w2 = rest" "tx w2 = tx w" "ticks w2 = ticks w"
    by blast
  then show ?thesis
    using handle_pdu_illegal_function [OF assms(3,4), of a b c d g w2] by simp
qed

theorem illegal_function_response_witness:
  "\<exists>w'. handle_frame (mock_world [0, 1, 0, 0, 0, 6, 1, 4, 0, 0, 0, 6]) = (Inr (), w') \<and>
        tx w' = [[0, 1, 0, 0, 0, 3, 1, 132, 1]]"
  using illegal_function_response [of "mock_world [0, 1, 0, 0, 0, 6, 1, 4, 0, 0, 0, 6]"
      0 1 0 0 0 6 1 "[4, 0, 0, 0, 6]" "[]"]
  by (auto simp: mock_world_def unpack_H_def)

section \<open>Empty frame bodies\<close>

text \<open>
  C7. When the length field of the header is below 1, or is 1 so that no byte remains
  after the unit identifier, the pass raises \<open>ConnectionError\<close>: the handler closes the
  connection and has sent nothing for this frame.
\<close>

theorem empty_pdu_closes_connection:
  assumes "rx w = [a, b, c, d, e, f, g] @ rest" and "unpack_H e f \<le> 1"
  shows "\<exists>w' w''. handle_frame w = (Inl ConnectionError, w') \<and> tx w' = tx w \<and>
           handle_client w = (ConnectionError, w'') \<and> tx w'' = tx w \<and> closed w''"
proof -
  from handle_frame_no_body [OF assms(1)] assms(2) obtain w' where
    h: "handle_frame w = (Inl ConnectionError, w')" "tx w' = tx w"
    by blast
  then have "handle_client w = (ConnectionError, w'\<lparr>closed := True\<rparr>)"
    by (subst handle_client.simps) simp
  with h show ?thesis by simp
qed

theorem empty_pdu_closes_connection_witness:
  "(\<exists>w' w''. handle_frame (mock_world [0, 1, 0, 0, 0, 1, 1, 3, 0, 0, 0, 6]) = (Inl ConnectionError, w') \<and>
      tx w' = [] \<and>
      handle_client (mock_world [0, 1, 0, 0, 0, 1, 1, 3, 0, 0, 0, 6]) = (ConnectionError, w'') \<and>
      tx w'' = [] \<and> closed w'') \<and>
   (\<exists>w' w''. handle_frame (mock_world [0, 2, 0, 0, 0, 0, 1]) = (Inl ConnectionError, w') \<and>
      tx w' = [] \<and>
      handle_client (mock_world [0, 2, 0, 0, 0, 0, 1]) = (ConnectionError, w'') \<and>
      tx w'' = [] \<and> closed w'')"
  using empty_pdu_closes_connection [of "mock_world [0, 1, 0, 0, 0, 1, 1, 3, 0, 0, 0, 6]"
      0 1 0 0 0 1 1 "[3, 0, 0, 0, 6]"]
    empty_pdu_closes_connection [of "mock_world [0, 2, 0, 0, 0, 0, 1]" 0 2 0 0 0 0 1 "[]"]
  by (auto simp: mock_world_def unpack_H_def)

section \<open>Read Holding Registers: the order of the checks\<close>

text \<open>
  C2. For a PDU with function code \<open>0x03\<close> the checks run in a fixed order. A PDU whose
  length is not 5 gets exception code \<open>0x03\<close>, whatever else is wrong with it; a PDU of
  length 5 whose quantity is below 1 or above 125 gets exception code \<open>0x03\<close>, whatever
  its start address; only a PDU that passes both checks and whose address range leaves
  the six registers gets exception code \<open>0x02\<close>.
\<close>

theorem fc3_validation_order:
  assumes "rx w = [a, b, c, d, e, f, g] @ pdu @ rest"
    and "unpack_H e f = 1 + int (length pdu)"
    and "pdu \<noteq> []" and "hd pdu = 3"
  shows "\<exists>w'. handle_frame w = (Inr (), w') \<and>
     (length pdu \<noteq> 5 \<longrightarrow> tx w' = tx w @ [[a, b, c, d, 0, 3, g] @ [131, 3]]) \<and>
     (length pdu = 5 \<and> (unpack_H (pdu ! 3) (pdu ! 4) < 1 \<or> unpack_H (pdu ! 3) (pdu ! 4) > 125) \<longrightarrow>
        tx w' = tx w @ [[a, b, c, d, 0, 3, g] @ [131, 3]]) \<and>
     (length pdu = 5 \<and> 1 \<le> unpack_H (pdu ! 3) (pdu ! 4) \<and> unpack_H (pdu ! 3) (pdu ! 4) \<le> 125 \<and>
      (unpack_H (pdu ! 1) (pdu ! 2) < 0 \<or>
       unpack_H (pdu ! 1) (pdu ! 2) + unpack_H (pdu ! 3) (pdu ! 4) > 6) \<longrightarrow>
        tx w' = tx w @ [[a, b, c, d, 0, 3, g] @ [131, 2]])"
proof -
  from handle_frame_decode [OF assms(1,2)] obtain w2 where w2:
    "handle_frame w = handle_pdu (unpack_H a b) (unpack_H c d) (uint g) pdu w2"
    "tx w2 = tx w"
    by blast
  show ?thesis
  proof (cases "length pdu = 5")
    case False
    with w2 handle_pdu_bad_length [OF assms(3,4) False, of a b c d g w2] show ?thesis by simp
  next
    case True
    from five_bytes [OF this] assms(4) obtain s1 s2 q1 q2 where p: "pdu = [3, s1, s2, q1, q2]"
      by auto
    have "0 \<le> unpack_H s1 s2" by (rule unpack_H_range)
    then show ?thesis
      using w2 handle_pdu_read [of a b c d g s1 s2 q1 q2 w2] unfolding p
      by (auto simp: Let_def)
  qed
qed

theorem fc3_validation_order_witness:
  "(\<exists>w'. handle_frame (mock_world [0, 1, 0, 0, 0, 6, 1, 3, 0, 9, 0, 0]) = (Inr (), w') \<and>
      tx w' = [[0, 1, 0, 0, 0, 3, 1, 131, 3]]) \<and>
   (\<exists>w'. handle_frame (mock_world [0, 1, 0, 0, 0, 4, 1, 3, 0, 9]) = (Inr (), w') \<and>
      tx w' = [[0, 1, 0, 0, 0, 3, 1, 131, 3]]) \<and>
   (\<exists>w'. handle_frame (mock_world [0, 1, 0, 0, 0, 6, 1, 3, 0, 4, 0, 5]) = (Inr (), w') \<and>
      tx w' = [[0, 1, 0, 0, 0, 3, 1, 131, 2]])"
  using fc3_validation_order [of "mock_world [0, 1, 0, 0, 0, 6, 1, 3, 0, 9, 0, 0]"
      0 1 0 0 0 6 1 "[3, 0, 9, 0, 0]" "[]"]
    fc3_validation_order [of "mock_world [0, 1, 0, 0, 0, 4, 1, 3, 0, 9]"
      0 1 0 0 0 4 1 "[3, 0, 9]" "[]"]
    fc3_validation_order [of "mock_world [0, 1, 0, 0, 0, 6, 1, 3, 0, 4, 0, 5]"
      0 1 0 0 0 6 1 "[3, 0, 4, 0, 5]" "[]"]
  by (auto simp: mock_world_def unpack_H_def)

section \<open>Read Holding Registers: the normal response\<close>

text \<open>
  C1. A request with function code \<open>0x03\<close>, a PDU of exactly 5 bytes, a quantity
  between 1 and 125 and \<open>start + quantity \<le> 6\<close> (the decoded start address is never
  negative) is answered with a frame whose PDU is \<open>0x03\<close>, the byte count
  \<open>2 * quantity\<close>, and then the values that \<open>read_clock_registers start quantity\<close>
  returns, in order, each masked with \<open>0xFFFF\<close> and written as two bytes, high byte
  first.
\<close>

theorem fc3_normal_response:
  assumes "rx w = [a, b, c, d, e, f, g] @ [3, s1, s2, q1, q2] @ rest"
    and "unpack_H e f = 6"
    and "1 \<le> unpack_H q1 q2" and "unpack_H q1 q2 \<le> 125"
    and "unpack_H s1 s2 + unpack_H q1 q2 \<le> 6"
  shows "\<exists>vals w'. fst (read_clock_registers (unpack_H s1 s2) (unpack_H q1 q2) w) = Inr vals \<and>
     int (length vals) = unpack_H q1 q2 \<and>
     handle_frame w = (Inr (), w') \<and>
     tx w' = tx w @ [[a, b, c, d] @ uint16_be (1 + (2 + 2 * unpack_H q1 q2)) @ [g] @
                     [3, word_of_int (2 * unpack_H q1 q2)] @
                     concat (map (\<lambda>v. uint16_be (v AND 65535)) vals)] \<and>
     uint (word_of_int (2 * unpack_H q1 q2) :: byte) = 2 * unpack_H q1 q2"
proof -
  have "unpack_H e f = 1 + int (length [3, s1, s2, q1, q2])" using assms(2) by simp
  from handle_frame_decode [OF assms(1) this] obtain w2 where w2:
    "handle_frame w = handle_pdu (unpack_H a b) (unpack_H c d) (uint g) [3, s1, s2, q1, q2] w2"
    "tx w2 = tx w" "clock w2 = clock w" "ticks w2 = ticks w"
    by blast
  have s0: "0 \<le> unpack_H s1 s2" by (rule unpack_H_range)
  have q0: "0 \<le> unpack_H q1 q2" using assms(3) by simp
  have q6: "unpack_H q1 q2 \<le> 6" using s0 assms(5) by simp
  have rd: "fst (read_clock_registers (unpack_H s1 s2) (unpack_H q1 q2) w) =
     Inr (map ((!) (let now = clock w (ticks w)
                    in [day now, month now, year now, hour now, minute now, second now]))
            [nat (unpack_H s1 s2)..<nat (unpack_H s1 s2 + unpack_H q1 q2)])"
    by (simp add: read_clock_registers_ok [OF s0 q0 assms(5)])
  have len: "int (length [nat (unpack_H s1 s2)..<nat (unpack_H s1 s2 + unpack_H q1 q2)]) =
      unpack_H q1 q2"
    using s0 q0 by (simp add: nat_add_distrib)
  have bc: "uint (word_of_int (2 * unpack_H q1 q2) :: byte) = 2 * unpack_H q1 q2"
    using q0 q6 by (intro uint_byte_of_int) simp_all
  have hf: "handle_frame w = (Inr (), w2\<lparr>ticks := ticks w2 + 1,
              tx := tx w2 @ [[a, b, c, d] @ uint16_be (3 + 2 * unpack_H q1 q2) @
                [g, 3, word_of_int (2 * unpack_H q1 q2)] @
                concat (map (\<lambda>v. uint16_be (v AND 65535))
                  (map ((!) (let now = clock w2 (ticks w2)
                             in [day now, month now, year now, hour now, minute now, second now]))
                     [nat (unpack_H s1 s2)..<nat (unpack_H s1 s2 + unpack_H q1 q2)]))]\<rparr>)"
    unfolding w2(1) handle_pdu_read Let_def using assms(3,4,5) by simp
  show ?thesis
    apply (rule exI, rule exI)
    apply (intro conjI)
        apply (rule rd)
       apply (simp only: length_map len)
      apply (rule hf)
     apply (simp add: w2 Let_def)
    apply (rule bc)
    done
qed

lemma mock_registers:
  "concat (map (\<lambda>v. uint16_be (v AND 65535)) [15, 6, 2025, 13, 45, 30]) =
     [0, 15, 0, 6, 7, 233, 0, 13, 0, 45, 0, 30]"
  by (simp add: uint16_be_def)

theorem fc3_normal_response_witness:
  "\<exists>w'. handle_frame (mock_world [0, 1, 0, 0, 0, 6, 1, 3, 0, 0, 0, 6]) = (Inr (), w') \<and>
        tx w' = [[0, 1, 0, 0, 0, 15, 1, 3, 12, 0, 15, 0, 6, 7, 233, 0, 13, 0, 45, 0, 30]]"
proof -
  have u: "unpack_H 0 6 = 6" "unpack_H 0 0 = 0" by (simp_all add: unpack_H_def)
  have r: "fst (read_clock_registers 0 6 (mock_world [0, 1, 0, 0, 0, 6, 1, 3, 0, 0, 0, 6])) =
           Inr [15, 6, 2025, 13, 45, 30]"
    by (simp add: read_clock_registers_def datetime_now_def mock_world_def mock_now_def
        py_slice_def clamp_index_def Let_def)
  have "rx (mock_world [0, 1, 0, 0, 0, 6, 1, 3, 0, 0, 0, 6]) =
          [0, 1, 0, 0, 0, 6, 1] @ [3, 0, 0, 0, 6] @ []"
    by (simp add: mock_world_def)
  from fc3_normal_response [OF this] u r
  show ?thesis by (auto simp: mock_registers uint16_be_def mock_world_def)
qed

section \<open>A concrete exchange\<close>

text \<open>
  C8. With the clock fixed at day 15, month 6, year 2025, 13:45:30, a connection on which
  the peer sends \<open>00 01 00 00 00 06 01 03 00 00 00 06\<close> and then closes is answered with
  exactly the frame \<open>00 01 00 00 00 0F 01 03 0C 00 0F 00 06 07 E9 00 0D 00 2D 00 1E\<close>,
  however the transport splits the request into partial reads.
\<close>

theorem scenario_read_all_registers:
  "fst (handle_client ((mock_world [0, 1, 0, 0, 0, 6, 1, 3, 0, 0, 0, 6])\<lparr>chunking := sizes\<rparr>)) =
     ConnectionError \<and>
   tx (snd (handle_client ((mock_world [0, 1, 0, 0, 0, 6, 1, 3, 0, 0, 0, 6])\<lparr>chunking := sizes\<rparr>))) =
     [[0, 1, 0, 0, 0, 15, 1, 3, 12, 0, 15, 0, 6, 7, 233, 0, 13, 0, 45, 0, 30]] \<and>
   closed (snd (handle_client ((mock_world [0, 1, 0, 0, 0, 6, 1, 3, 0, 0, 0, 6])\<lparr>chunking := sizes\<rparr>)))"
proof -
  define w where "w = (mock_world [0, 1, 0, 0, 0, 6, 1, 3, 0, 0, 0, 6])\<lparr>chunking := sizes\<rparr>"
  have u: "unpack_H 0 6 = 6" "unpack_H 0 0 = 0" by (simp_all add: unpack_H_def)
  have rxw: "rx w = [0, 1, 0, 0, 0, 6, 1] @ [3, 0, 0, 0, 6] @ []"
    by (simp add: w_def mock_world_def)
  have "unpack_H 0 6 = 1 + int (length [3, 0, 0, 0, 6 :: byte])" by (simp add: u)
  from handle_frame_decode [OF rxw this] obtain w2 where w2:
    "handle_frame w = handle_pdu (unpack_H 0 1) (unpack_H 0 0) (uint (1 :: byte)) [3, 0, 0, 0, 6] w2"
    "rx w2 = []" "tx w2 = []" "clock w2 = (\<lambda>_. mock_now)" "ticks w2 = 0"
    by (auto simp: w_def mock_world_def)
  have bank: "map ((!) [15, 6, 2025, 13, 45, 30 :: int]) [0..<6] = [15, 6, 2025, 13, 45, 30]"
    by (simp add: upt_rec)
  define w3 where "w3 = w2\<lparr>ticks := 1,
      tx := [[0, 1, 0, 0, 0, 15, 1, 3, 12, 0, 15, 0, 6, 7, 233, 0, 13, 0, 45, 0, 30]]\<rparr>"
  have hf: "handle_frame w = (Inr (), w3)"
    unfolding w2(1) handle_pdu_read w3_def
    by (simp add: u w2 mock_now_def bank mock_registers Let_def uint16_be_def)
  have "length (rx w3) < 7" by (simp add: w3_def w2)
  from handle_frame_no_header [OF this] obtain w4 where w4:
    "handle_frame w3 = (Inl ConnectionError, w4)" "tx w4 = tx w3"
    by blast
  have "handle_client w3 = (ConnectionError, w4\<lparr>closed := True\<rparr>)"
    using w4 by (subst handle_client.simps) simp
  then have "handle_client w = (ConnectionError, w4\<lparr>closed := True\<rparr>)"
    using hf by (subst handle_client.simps) simp
  then show ?thesis
    unfolding w_def [symmetric] by (simp add: w4 w3_def)
qed

section \<open>Echo of the request header\<close>

text \<open>
  C3. Whenever a pass of the loop sends anything, it sends one frame, and the transaction
  identifier (bytes 0 and 1), the protocol identifier (bytes 2 and 3) and the unit
  identifier (byte 6) of that frame are the bytes of the request header.
\<close>

theorem response_echoes_header:
  assumes "handle_frame w = (r, w')" and "tx w' \<noteq> tx w"
  shows "\<exists>resp. tx w' = tx w @ [resp] \<and> 7 \<le> length (rx w) \<and> 7 \<le> length resp \<and>
           take 4 resp = take 4 (rx w) \<and> resp ! 6 = rx w ! 6"
proof -
  from handle_frame_sends [OF assms(1)] assms(2) obtain a b c d e f g rest pdu' where
    h: "rx w = [a, b, c, d, e, f, g] @ rest"
    "tx w' = tx w @ [[a, b, c, d] @ uint16_be (1 + int (length pdu')) @ [g] @ pdu']"
    by auto
  show ?thesis
    by (rule exI [of _ "[a, b, c, d] @ uint16_be (1 + int (length pdu')) @ [g] @ pdu'"])
      (simp add: h uint16_be_def)
qed

theorem response_echoes_header_witness:
  "\<exists>r w' resp. handle_frame (mock_world [0, 1, 0, 0, 0, 6, 1, 3, 0, 0, 0, 6]) = (r, w') \<and>
     tx w' = [resp] \<and> take 4 resp = [0, 1, 0, 0] \<and> resp ! 6 = 1"
proof -
  have rxw: "rx (mock_world [0, 1, 0, 0, 0, 6, 1, 3, 0, 0, 0, 6]) =
          [0, 1, 0, 0, 0, 6, 1] @ [3, 0, 0, 0, 6] @ []"
    by (simp add: mock_world_def)
  have "unpack_H 0 6 = 1 + int (length [3, 0, 0, 0, 6 :: byte])" by (simp add: unpack_H_def)
  from handle_frame_decode [OF rxw this] obtain w2 where w2:
    "handle_frame (mock_world [0, 1, 0, 0, 0, 6, 1, 3, 0, 0, 0, 6]) =
       handle_pdu (unpack_H 0 1) (unpack_H 0 0) (uint (1 :: byte)) [3, 0, 0, 0, 6] w2"
    "tx w2 = []"
    by (auto simp: mock_world_def)
  obtain r w' where rw: "handle_frame (mock_world [0, 1, 0, 0, 0, 6, 1, 3, 0, 0, 0, 6]) = (r, w')"
    by (cases "handle_frame (mock_world [0, 1, 0, 0, 0, 6, 1, 3, 0, 0, 0, 6])")
  have ne: "tx w' \<noteq> tx (mock_world [0, 1, 0, 0, 0, 6, 1, 3, 0, 0, 0, 6])"
    using rw unfolding w2(1) handle_pdu_read
    by (auto simp: Let_def unpack_H_def mock_world_def)
  from response_echoes_header [OF rw ne] rw show ?thesis
    by (auto simp: mock_world_def)
qed

section \<open>The length field of emitted frames\<close>

text \<open>
  C4. Every frame that the handler sends during a connection, normal or exception
  response, has at least the seven header bytes, and its length field (bytes 4 and 5, high
  byte first) is one more than the number of PDU bytes that follow the header.
\<close>

theorem emitted_frames_length_field:
  "\<exists>sent. tx (snd (handle_client w)) = tx w @ sent \<and>
     (\<forall>resp \<in> set sent. 7 \<le> length resp \<and>
        unpack_H (resp ! 4) (resp ! 5) = 1 + int (length (drop 7 resp)))"
proof (induction w rule: handle_client.induct)
  case (1 w)
  obtain r w' where f: "handle_frame w = (r, w')" by (cases "handle_frame w")
  from handle_frame_length_field [OF f] obtain one where one:
    "tx w' = tx w @ one"
    "\<forall>resp \<in> set one. 7 \<le> length resp \<and>
        unpack_H (resp ! 4) (resp ! 5) = 1 + int (length (drop 7 resp))"
  proof (elim disjE exE conjE)
    assume "tx w' = tx w"
    then show ?thesis using that [of "[]"] by simp
  next
    fix resp
    assume "tx w' = tx w @ [resp]" "7 \<le> length resp"
      "unpack_H (resp ! 4) (resp ! 5) = 1 + int (length (drop 7 resp))"
    then show ?thesis using that [of "[resp]"] by simp
  qed
  show ?case
  proof (cases r)
    case (Inl e)
    then have "handle_client w = (e, w'\<lparr>closed := True\<rparr>)"
      using f by (subst handle_client.simps) simp
    with one show ?thesis by (intro exI [of _ one]) simp
  next
    case (Inr u)
    then have hc: "handle_client w = handle_client w'"
      using f by (subst handle_client.simps) simp
    from "1.IH" [OF f [symmetric] Inr] obtain more where more:
      "tx (snd (handle_client w')) = tx w' @ more"
      "\<forall>resp \<in> set more. 7 \<le> length resp \<and>
          unpack_H (resp ! 4) (resp ! 5) = 1 + int (length (drop 7 resp))"
      by blast
    show ?thesis
      using one more by (intro exI [of _ "one @ more"]) (auto simp: hc)
  qed
qed

theorem emitted_frames_length_field_witness:
  "tx (snd (handle_client (mock_world [0, 7, 0, 0, 0, 2, 1, 4]))) = [[0, 7, 0, 0, 0, 3, 1, 132, 1]] \<and>
   7 \<le> length [0, 7, 0, 0, 0, 3, 1, 132, 1 :: byte] \<and>
   unpack_H ([0, 7, 0, 0, 0, 3, 1, 132, 1] ! 4) ([0, 7, 0, 0, 0, 3, 1, 132, 1] ! 5) =
     1 + int (length (drop 7 [0, 7, 0, 0, 0, 3, 1, 132, 1 :: byte]))"
proof -
  define w where "w = mock_world [0, 7, 0, 0, 0, 2, 1, 4]"
  have rxw: "rx w = [0, 7, 0, 0, 0, 2, 1] @ [4] @ []" by (simp add: w_def mock_world_def)
  have "unpack_H 0 2 = 1 + int (length [4 :: byte])" by (simp add: unpack_H_def)
  from handle_frame_decode [OF rxw this] obtain w2 where w2:
    "handle_frame w = handle_pdu (unpack_H 0 7) (unpack_H 0 0) (uint (1 :: byte)) [4] w2"
    "rx w2 = []" "tx w2 = tx w"
    by blast
  have "handle_frame w = (Inr (), w2\<lparr>tx := tx w2 @ [[0, 7, 0, 0, 0, 3, 1, hd [4] OR 128, 1]]\<rparr>)"
    unfolding w2(1) by (rule handle_pdu_illegal_function) simp_all
  from handle_client_last_frame [OF this]
  have t: "tx (snd (handle_client w)) = [[0, 7, 0, 0, 0, 3, 1, 132, 1]]"
    by (simp add: w2 w_def mock_world_def)
  from emitted_frames_length_field [of w] obtain sent where
    "tx (snd (handle_client w)) = tx w @ sent"
    "\<forall>resp \<in> set sent. 7 \<le> length resp \<and>
        unpack_H (resp ! 4) (resp ! 5) = 1 + int (length (drop 7 resp))"
    by blast
  with t have "7 \<le> length [0, 7, 0, 0, 0, 3, 1, 132, 1 :: byte] \<and>
   unpack_H ([0, 7, 0, 0, 0, 3, 1, 132, 1] ! 4) ([0, 7, 0, 0, 0, 3, 1, 132, 1] ! 5) =
     1 + int (length (drop 7 [0, 7, 0, 0, 0, 3, 1, 132, 1 :: byte]))"
    by (simp add: w_def mock_world_def unpack_H_def)
  with t show ?thesis by (simp add: w_def)
qed

section \<open>The protocol identifier\<close>

text \<open>
  C9. The protocol identifier is never inspected. Two requests that differ only in their
  protocol identifier, served at the same clock state, have the same outcome (both are
  answered, or both end the connection with nothing sent), read the clock equally often
  and leave the same input behind; when they are answered, the two responses differ only
  in bytes 2 and 3, where each echoes its own request. A protocol identifier other than
  0 is therefore not rejected.
\<close>

theorem protocol_id_not_inspected:
  assumes "rx w = [a, b, c, d, e, f, g] @ rest" and "rx v = [a, b, c', d', e, f, g] @ rest"
    and "clock v = clock w" and "ticks v = ticks w"
  shows "fst (handle_frame v) = fst (handle_frame w) \<and>
         ticks (snd (handle_frame v)) = ticks (snd (handle_frame w)) \<and>
         ((fst (handle_frame w) = Inl ConnectionError \<and>
           tx (snd (handle_frame w)) = tx w \<and> tx (snd (handle_frame v)) = tx v) \<or>
          (\<exists>resp. fst (handle_frame w) = Inr () \<and> 7 \<le> length resp \<and>
             resp ! 2 = c \<and> resp ! 3 = d \<and>
             tx (snd (handle_frame w)) = tx w @ [resp] \<and>
             tx (snd (handle_frame v)) = tx v @ [resp[2 := c', 3 := d']] \<and>
             rx (snd (handle_frame v)) = rx (snd (handle_frame w))))"
  using handle_frame_wire_pair [OF assms]
proof (elim disjE exE conjE)
  fix w' v'
  assume "handle_frame w = (Inl ConnectionError, w')" "handle_frame v = (Inl ConnectionError, v')"
    "tx w' = tx w" "tx v' = tx v" "ticks w' = ticks w" "ticks v' = ticks w"
  then show ?thesis by simp
next
  fix w' v' pdu'
  assume h: "handle_frame w = (Inr (), w')" "handle_frame v = (Inr (), v')"
    "tx w' = tx w @ [[a, b, c, d] @ uint16_be (1 + int (length pdu')) @ [g] @ pdu']"
    "tx v' = tx v @ [[a, b, c', d'] @ uint16_be (1 + int (length pdu')) @ [g] @ pdu']"
    "ticks v' = ticks w'" "rx v' = rx w'"
  show ?thesis
    unfolding h fst_conv snd_conv
    apply (intro conjI refl disjI2)
    apply (rule exI [of _ "[a, b, c, d] @ uint16_be (1 + int (length pdu')) @ [g] @ pdu'"])
    apply simp
    done
qed

theorem protocol_id_not_inspected_witness:
  "fst (handle_frame (mock_world [0, 1, 171, 205, 0, 6, 1, 3, 0, 0, 0, 6])) =
     fst (handle_frame (mock_world [0, 1, 0, 0, 0, 6, 1, 3, 0, 0, 0, 6])) \<and>
   (\<exists>resp. tx (snd (handle_frame (mock_world [0, 1, 0, 0, 0, 6, 1, 3, 0, 0, 0, 6]))) = [resp] \<and>
      tx (snd (handle_frame (mock_world [0, 1, 171, 205, 0, 6, 1, 3, 0, 0, 0, 6]))) =
        [resp[2 := 171, 3 := 205]])"
proof -
  have u: "unpack_H 0 6 = 6" "unpack_H 0 0 = 0" by (simp_all add: unpack_H_def)
  have rxw: "rx (mock_world [0, 1, 0, 0, 0, 6, 1, 3, 0, 0, 0, 6]) =
          [0, 1, 0, 0, 0, 6, 1] @ [3, 0, 0, 0, 6] @ []"
    by (simp add: mock_world_def)
  have "unpack_H 0 6 = 1 + int (length [3, 0, 0, 0, 6 :: byte])" by (simp add: u)
  from handle_frame_decode [OF rxw this] obtain w2 where w2:
    "handle_frame (mock_world [0, 1, 0, 0, 0, 6, 1, 3, 0, 0, 0, 6]) =
       handle_pdu (unpack_H 0 1) (unpack_H 0 0) (uint (1 :: byte)) [3, 0, 0, 0, 6] w2"
    by blast
  have ok: "fst (handle_frame (mock_world [0, 1, 0, 0, 0, 6, 1, 3, 0, 0, 0, 6])) = Inr ()"
    unfolding w2 handle_pdu_read by (simp add: Let_def u)
  show ?thesis
    using protocol_id_not_inspected [of "mock_world [0, 1, 0, 0, 0, 6, 1, 3, 0, 0, 0, 6]"
        0 1 0 0 0 6 1 "[3, 0, 0, 0, 6]" "mock_world [0, 1, 171, 205, 0, 6, 1, 3, 0, 0, 0, 6]"
        171 205] ok
    by (auto simp: mock_world_def)
qed

section \<open>Start addresses decoded from the wire\<close>

text \<open>
  C10. The start address that \<^verbatim>\<open>struct.unpack(">HH", ...)\<close> yields is never negative, so
  the \<open>start < 0\<close> half of the range check cannot fire for a request from the network; and
  whenever the handler answers a frame with a two-byte PDU whose second byte is \<open>0x02\<close>,
  the request was a five-byte PDU with function code \<open>0x03\<close> and
  \<open>start + quantity > 6\<close>.
\<close>

theorem illegal_address_only_beyond_bank:
  "(\<forall>bs start_addr qty. unpack_HH bs = Inr (start_addr, qty) \<longrightarrow> \<not> start_addr < 0) \<and>
   (rx w = [a, b, c, d, e, f, g] @ pdu @ rest \<and> unpack_H e f = 1 + int (length pdu) \<and>
    handle_frame w = (r, w') \<and> tx w' = tx w @ [resp] \<and> drop 7 resp = [x, 2] \<longrightarrow>
      hd pdu = 3 \<and> length pdu = 5 \<and> x = 131 \<and>
      \<not> unpack_H (pdu ! 1) (pdu ! 2) < 0 \<and>
      unpack_H (pdu ! 1) (pdu ! 2) + unpack_H (pdu ! 3) (pdu ! 4) > 6)"
proof (rule conjI)
  show "\<forall>bs start_addr qty. unpack_HH bs = Inr (start_addr, qty) \<longrightarrow> \<not> start_addr < 0"
  proof (intro allI impI)
    fix bs start_addr qty
    assume "unpack_HH bs = Inr (start_addr, qty)"
    then obtain s1 s2 q1 q2 where "bs = [s1, s2, q1, q2]" "start_addr = unpack_H s1 s2"
      by (cases bs rule: unpack_HH.cases) auto
    then show "\<not> start_addr < 0" using unpack_H_range(1) [of s1 s2] by simp
  qed
next
  show "rx w = [a, b, c, d, e, f, g] @ pdu @ rest \<and> unpack_H e f = 1 + int (length pdu) \<and>
    handle_frame w = (r, w') \<and> tx w' = tx w @ [resp] \<and> drop 7 resp = [x, 2] \<longrightarrow>
      hd pdu = 3 \<and> length pdu = 5 \<and> x = 131 \<and>
      \<not> unpack_H (pdu ! 1) (pdu ! 2) < 0 \<and>
      unpack_H (pdu ! 1) (pdu ! 2) + unpack_H (pdu ! 3) (pdu ! 4) > 6"
  proof (rule impI)
    assume asm: "rx w = [a, b, c, d, e, f, g] @ pdu @ rest \<and> unpack_H e f = 1 + int (length pdu) \<and>
      handle_frame w = (r, w') \<and> tx w' = tx w @ [resp] \<and> drop 7 resp = [x, 2]"
    then have rxw: "rx w = [a, b, c, d, e, f, g] @ pdu @ rest"
      and len: "unpack_H e f = 1 + int (length pdu)"
      and hf: "handle_frame w = (r, w')" and sent: "tx w' = tx w @ [resp]"
      and exc: "drop 7 resp = [x, 2]"
      by simp_all
    have ne: "pdu \<noteq> []"
    proof
      assume "pdu = []"
      then have "unpack_H e f \<le> 1 \<or> int (length (pdu @ rest)) < unpack_H e f - 1"
        using len by simp
      from handle_frame_no_body [OF rxw this] hf sent show False by auto
    qed
    from handle_frame_decode [OF rxw len] obtain w2 where w2:
      "handle_frame w = handle_pdu (unpack_H a b) (unpack_H c d) (uint g) pdu w2" "tx w2 = tx w"
      by blast
    have fc: "hd pdu = 3"
    proof (rule ccontr)
      assume "hd pdu \<noteq> 3"
      from handle_pdu_illegal_function [OF ne this, of a b c d g w2] w2 hf sent exc
      show False by auto
    qed
    have l5: "length pdu = 5"
    proof (rule ccontr)
      assume "length pdu \<noteq> 5"
      from handle_pdu_bad_length [OF ne fc this, of a b c d g w2] w2 hf sent exc
      show False by auto
    qed
    from five_bytes [OF l5] fc obtain s1 s2 q1 q2 where p: "pdu = [3, s1, s2, q1, q2]"
      by auto
    have s0: "\<not> unpack_H s1 s2 < 0" using unpack_H_range(1) [of s1 s2] by simp
    define vals where "vals = map ((!) (let now = clock w2 (ticks w2)
          in [day now, month now, year now, hour now, minute now, second now]))
        [nat (unpack_H s1 s2)..<nat (unpack_H s1 s2 + unpack_H q1 q2)]"
    have "x = 131 \<and> unpack_H s1 s2 + unpack_H q1 q2 > 6"
    proof (cases "unpack_H q1 q2 < 1 \<or> unpack_H q1 q2 > 125")
      case True
      then show ?thesis
        using w2 hf sent exc unfolding p handle_pdu_read Let_def by auto
    next
      case q: False
      show ?thesis
      proof (cases "unpack_H s1 s2 + unpack_H q1 q2 > 6")
        case True
        then show ?thesis
          using q w2 hf sent exc unfolding p handle_pdu_read Let_def by auto
      next
        case False
        have "resp = [a, b, c, d] @ uint16_be (3 + 2 * unpack_H q1 q2) @
                  [g, 3, word_of_int (2 * unpack_H q1 q2)] @
                  concat (map (\<lambda>v. uint16_be (v AND 65535)) vals)"
          using False q w2 hf sent unfolding p handle_pdu_read Let_def vals_def by simp
        then have "length (drop 7 resp) = 2 + 2 * length vals"
          by (simp add: length_registers)
        moreover have "length vals = nat (unpack_H q1 q2)"
          using q s0 by (simp add: vals_def nat_add_distrib)
        ultimately have "length (drop 7 resp) \<noteq> 2" using q by simp
        with exc show ?thesis by simp
      qed
    qed
    with fc l5 s0 show "hd pdu = 3 \<and> length pdu = 5 \<and> x = 131 \<and>
        \<not> unpack_H (pdu ! 1) (pdu ! 2) < 0 \<and>
        unpack_H (pdu ! 1) (pdu ! 2) + unpack_H (pdu ! 3) (pdu ! 4) > 6"
      by (simp add: p)
  qed
qed

theorem illegal_address_only_beyond_bank_witness:
  "\<exists>r w'. handle_frame (mock_world [0, 1, 0, 0, 0, 6, 1, 3, 0, 4, 0, 5]) = (r, w') \<and>
     tx w' = [[0, 1, 0, 0, 0, 3, 1, 131, 2]] \<and>
     unpack_HH [0, 4, 0, 5] = Inr (4, 5) \<and> \<not> (4 :: int) < 0 \<and>
     unpack_H ([3, 0, 4, 0, 5] ! 1) ([3, 0, 4, 0, 5] ! 2) +
       unpack_H ([3, 0, 4, 0, 5] ! 3) ([3, 0, 4, 0, 5] ! 4) > 6"
proof -
  define w where "w = mock_world [0, 1, 0, 0, 0, 6, 1, 3, 0, 4, 0, 5]"
  have u: "unpack_H 0 6 = 6" "unpack_H 0 4 = 4" "unpack_H 0 5 = 5" by (simp_all add: unpack_H_def)
  have rxw: "rx w = [0, 1, 0, 0, 0, 6, 1] @ [3, 0, 4, 0, 5] @ []"
    by (simp add: w_def mock_world_def)
  have len: "unpack_H 0 6 = 1 + int (length [3, 0, 4, 0, 5 :: byte])" by (simp add: u)
  from handle_frame_decode [OF rxw len] obtain w2 where w2:
    "handle_frame w = handle_pdu (unpack_H 0 1) (unpack_H 0 0) (uint (1 :: byte)) [3, 0, 4, 0, 5] w2"
    "tx w2 = tx w"
    by blast
  define w' where "w' = w2\<lparr>ticks := ticks w2 + 1, tx := tx w2 @ [[0, 1, 0, 0, 0, 3, 1, 131, 2]]\<rparr>"
  have hf: "handle_frame w = (Inr (), w')"
    unfolding w2(1) handle_pdu_read w'_def by (simp add: Let_def u)
  have sent: "tx w' = tx w @ [[0, 1, 0, 0, 0, 3, 1, 131, 2]]" by (simp add: w'_def w2)
  have exc: "drop 7 [0, 1, 0, 0, 0, 3, 1, 131, 2 :: byte] = [131, 2]" by simp
  have hh: "unpack_HH [0, 4, 0, 5] = Inr (4, 5)" by (simp add: u)
  from illegal_address_only_beyond_bank [of w 0 1 0 0 0 6 1 "[3, 0, 4, 0, 5]" "[]" "Inr ()" w'
      "[0, 1, 0, 0, 0, 3, 1, 131, 2]" 131] rxw len hf sent exc hh
  have "\<not> (4 :: int) < 0 \<and>
     unpack_H ([3, 0, 4, 0, 5] ! 1) ([3, 0, 4, 0, 5] ! 2) +
       unpack_H ([3, 0, 4, 0, 5] ! 3) ([3, 0, 4, 0, 5] ! 4) > 6"
    by blast
  with hf sent hh show ?thesis
    unfolding w_def by (auto simp: mock_world_def)
qed

end
